theory Spec2Isabelle
  imports Main "HOL-Library.Char_ord" "HOL-Library.List_Lexorder" "HOL-Library.AList"
    "HOL-Library.Sublist"
begin

section \<open>Data model of rest\_framework\_filters/filterset.py\<close>

text \<open>
  Python exceptions that the modelled code can raise: indexing an empty string
  (\<^verbatim>\<open>param[-1]\<close>), subscripting a dictionary with a missing key, and the
  schema-definition error for a field that cannot be resolved.
\<close>

datatype py_error = IndexError | KeyError | TypeError

text \<open>\<^verbatim>\<open>django.db.models.constants.LOOKUP_SEP\<close>.\<close>

definition LOOKUP_SEP :: string where
  "LOOKUP_SEP = ''__''"

text \<open>\<^verbatim>\<open>str.startswith\<close>.\<close>

definition startswith :: "string \<Rightarrow> string \<Rightarrow> bool" where
  "startswith s p = (take (length p) s = p)"

text \<open>
  The class of a filter object. \<^verbatim>\<open>RelatedFilter\<close> is a subclass of
  \<^verbatim>\<open>AutoFilter\<close>, so \<^verbatim>\<open>isinstance(f, AutoFilter)\<close> holds for both.
\<close>

datatype filter_kind = PlainFilter | AutoFilter | RelatedFilter

text \<open>\<^verbatim>\<open>AutoFilter.lookups\<close>: \<^verbatim>\<open>None\<close>, \<^verbatim>\<open>'__all__'\<close> or a list of lookups.\<close>

datatype lookups = NoLookups | AllLookups | Lookups "string list"

text \<open>
  A filter object with the attributes the module reads or writes, and its lookup
  expression. \<open>filterset\<close> is the name of the FilterSet class a RelatedFilter points to
  (classes are looked up by name, which is how circular references between schemas are
  possible).
\<close>

record filter =
  kind :: filter_kind
  field_name :: string
  lookup_expr :: string
  lookups :: lookups
  exclude :: bool
  filterset :: string

definition is_auto :: "filter \<Rightarrow> bool" where
  "is_auto f = (kind f = AutoFilter \<or> kind f = RelatedFilter)"

definition is_related :: "filter \<Rightarrow> bool" where
  "is_related f = (kind f = RelatedFilter)"

text \<open>
  An \<^verbatim>\<open>OrderedDict\<close> from names to filters is an association list; assignment
  \<^verbatim>\<open>d[k] = v\<close> is \<^const>\<open>AList.update\<close> (an existing key keeps its place, a new key
  goes to the end) and \<^verbatim>\<open>k in d\<close> is \<open>has_key\<close>.
\<close>

type_synonym filters = "(string \<times> filter) list"

definition has_key :: "string \<Rightarrow> (string \<times> 'a) list \<Rightarrow> bool" where
  "has_key k d = (k \<in> set (map fst d))"

text \<open>The class-level attributes of a FilterSet class.\<close>

record fclass =
  declared_filters :: filters
  base_filters :: filters
  auto_filters :: "string list"
  related_filters :: "string list"

section \<open>Parameter resolution\<close>

text \<open>
  The first step of \<^verbatim>\<open>get_param_filter_name\<close>: strip \<^verbatim>\<open>rel + LOOKUP_SEP\<close> when
  \<^verbatim>\<open>rel\<close> is truthy (neither \<^verbatim>\<open>None\<close> nor the empty string) and the parameter
  starts with it.
\<close>

definition strip_rel :: "string \<Rightarrow> string option \<Rightarrow> string" where
  "strip_rel param rel =
     (let pre = (case rel of None \<Rightarrow> [] | Some r \<Rightarrow> r) @ LOOKUP_SEP
      in if rel \<noteq> None \<and> rel \<noteq> Some [] \<and> startswith param pre
         then drop (length pre) param else param)"

text \<open>
  \<^verbatim>\<open>FilterSet.get_param_filter_name\<close>. \<^verbatim>\<open>param[-1]\<close> raises IndexError on the
  empty string; falling off the end of the loop returns \<^verbatim>\<open>None\<close>.
\<close>

definition get_param_filter_name ::
    "fclass \<Rightarrow> string \<Rightarrow> string option \<Rightarrow> py_error + string option" where
  "get_param_filter_name cls param rel =
     (let param = strip_rel param rel
      in if has_key param (base_filters cls) then Inr (Some param)
         else if param = [] then Inl IndexError
         else if last param = CHR ''!'' \<and> has_key (butlast param) (base_filters cls)
           then Inr (Some (butlast param))
         else Inr (find (\<lambda>name. startswith param (name @ LOOKUP_SEP))
                        (rev (sort (related_filters cls)))))"

text \<open>
  The resolution procedure in the words of the specification (section 4.2): exact
  match, then negation-stripped match, then the relational names in reverse sorted
  order, else none. It has no error result.
\<close>

definition resolve_spec :: "fclass \<Rightarrow> string \<Rightarrow> string option \<Rightarrow> string option" where
  "resolve_spec cls param rel =
     (let p = strip_rel param rel
      in if has_key p (base_filters cls) then Some p
         else if (\<exists>q \<in> set (map fst (base_filters cls)). p = q @ ''!'')
           then Some (butlast p)
         else find (\<lambda>name. startswith p (name @ LOOKUP_SEP))
                   (rev (sort (related_filters cls))))"

section \<open>Filter subset selection\<close>

text \<open>
  The set comprehension of \<^verbatim>\<open>get_filter_subset\<close> resolves every parameter; the
  first exception raised aborts the call.
\<close>

fun resolve_all :: "fclass \<Rightarrow> string list \<Rightarrow> string option \<Rightarrow> py_error + string option list" where
  "resolve_all cls [] rel = Inr []"
| "resolve_all cls (p # ps) rel =
     (case get_param_filter_name cls p rel of
        Inl e \<Rightarrow> Inl e
      | Inr x \<Rightarrow> (case resolve_all cls ps rel of Inl e \<Rightarrow> Inl e | Inr xs \<Rightarrow> Inr (x # xs)))"

text \<open>
  \<^verbatim>\<open>FilterSet.get_filter_subset\<close>: \<open>params\<close> are the keys of the request data in
  iteration order. The class is only read; the result is a new mapping.
\<close>

definition get_filter_subset :: "fclass \<Rightarrow> string list \<Rightarrow> string option \<Rightarrow> py_error + filters" where
  "get_filter_subset cls params rel =
     (case resolve_all cls params rel of
        Inl e \<Rightarrow> Inl e
      | Inr names \<Rightarrow>
          Inr (filter (\<lambda>(k, v). Some k \<in> set names) (base_filters cls)))"

section \<open>Example schemas\<close>

definition plain :: "string \<Rightarrow> filter" where
  "plain fld = \<lparr>kind = PlainFilter, field_name = fld, lookup_expr = ''exact'',
                 lookups = NoLookups, exclude = False, filterset = []\<rparr>"

definition rel_to :: "string \<Rightarrow> string \<Rightarrow> filter" where
  "rel_to fld c = \<lparr>kind = RelatedFilter, field_name = fld, lookup_expr = ''exact'',
                    lookups = NoLookups, exclude = False, filterset = c\<rparr>"

text \<open>
  A schema with a plain filter \<open>title\<close> and the two relational filters \<open>note\<close> and
  \<open>note_author\<close> of the specification's example.
\<close>

definition note_cls :: fclass where
  "note_cls = \<lparr>declared_filters =
                 [(''title'', plain ''title''), (''note'', rel_to ''note'' ''Note''),
                  (''note_author'', rel_to ''note_author'' ''User'')],
               base_filters =
                 [(''title'', plain ''title''), (''note'', rel_to ''note'' ''Note''),
                  (''note_author'', rel_to ''note_author'' ''User'')],
               auto_filters = [''note'', ''note_author''],
               related_filters = [''note'', ''note_author'']\<rparr>"

section \<open>Request-scoped filterset instances\<close>

text \<open>
  \<^verbatim>\<open>related(filterset, filter_name)\<close>, given the filterset's \<^verbatim>\<open>relationship\<close>: a
  falsy relationship (\<^verbatim>\<open>None\<close> or empty) leaves the name as it is.
\<close>

definition related :: "string option \<Rightarrow> string \<Rightarrow> string" where
  "related relationship filter_name =
     (case relationship of
        None \<Rightarrow> filter_name
      | Some r \<Rightarrow> if r = [] then filter_name else r @ LOOKUP_SEP @ filter_name)"

text \<open>
  The request data, a mapping from parameter names to values; iterating it yields the
  names. A filterset instance holds the attributes that \<^verbatim>\<open>__init__\<close> sets:
  \<^verbatim>\<open>base_filters\<close> (the subset, shadowing the class attribute), \<^verbatim>\<open>data\<close>,
  \<^verbatim>\<open>relationship\<close>, \<^verbatim>\<open>related_filtersets\<close> and \<^verbatim>\<open>filters\<close>.
\<close>

type_synonym request_data = "(string \<times> string) list"

datatype fs_instance = Instance
  (i_cls: string)
  (i_data: request_data)
  (i_relationship: "string option")
  (i_base_filters: filters)
  (i_filters: filters)
  (i_related_filtersets: "(string \<times> fs_instance) list")

text \<open>
  \<^verbatim>\<open>FilterSet.get_request_filters\<close>: the loop over \<^verbatim>\<open>self.filters.items()\<close> with the
  mapping \<^verbatim>\<open>requested_filters\<close> as accumulator. The copy is made of
  \<^verbatim>\<open>self.base_filters[filter_name]\<close> (KeyError when absent) and gets the negation of
  \<^verbatim>\<open>f.exclude\<close>; \<^verbatim>\<open>parent\<close> and \<^verbatim>\<open>model\<close>, back-references to the owning
  instance and its model that are copied over from \<^verbatim>\<open>f\<close>, are not part of the record.
\<close>

fun request_filters_loop ::
    "string option \<Rightarrow> request_data \<Rightarrow> filters \<Rightarrow> filters \<Rightarrow> filters \<Rightarrow> py_error + filters" where
  "request_filters_loop rel dat base [] requested = Inr requested"
| "request_filters_loop rel dat base ((filter_name, f) # rest) requested =
     (let requested = AList.update filter_name f requested;
          exclude_name = filter_name @ ''!''
      in if has_key (related rel exclude_name) dat
         then (case map_of base filter_name of
                 None \<Rightarrow> Inl KeyError
               | Some b \<Rightarrow>
                   request_filters_loop rel dat base rest
                     (AList.update exclude_name (b\<lparr>exclude := \<not> exclude f\<rparr>) requested))
         else request_filters_loop rel dat base rest requested)"

definition get_request_filters ::
    "string option \<Rightarrow> request_data \<Rightarrow> filters \<Rightarrow> filters \<Rightarrow> py_error + filters" where
  "get_request_filters rel dat base fs = request_filters_loop rel dat base fs []"

text \<open>
  \<^verbatim>\<open>FilterSet.__init__\<close> and \<^verbatim>\<open>FilterSet.get_related_filtersets\<close>, which call each
  other: constructing an instance constructs an instance of the related class for every
  relational filter of the class that is in \<^verbatim>\<open>self.filters\<close>. The first argument
  bounds the nesting depth; \<open>None\<close> means that the bound was reached, so a construction
  that returns \<open>None\<close> for every bound never returns. Classes are looked up by name in
  \<open>env\<close>. The base class's \<^verbatim>\<open>__init__\<close> stores the data and sets
  \<^verbatim>\<open>self.filters\<close> to a deep copy of \<^verbatim>\<open>self.base_filters\<close>.
\<close>

fun init_filterset ::
    "nat \<Rightarrow> (string \<Rightarrow> fclass) \<Rightarrow> string \<Rightarrow> request_data \<Rightarrow> string option \<Rightarrow> (py_error + fs_instance) option"
and get_related_filtersets ::
    "nat \<Rightarrow> (string \<Rightarrow> fclass) \<Rightarrow> string list \<Rightarrow> filters \<Rightarrow> request_data \<Rightarrow> string option \<Rightarrow>
     (string \<times> fs_instance) list \<Rightarrow> (py_error + (string \<times> fs_instance) list) option" where
  "init_filterset 0 env c dat rel = None"
| "init_filterset (Suc n) env c dat rel =
     (case get_filter_subset (env c) (map fst dat) rel of
        Inl e \<Rightarrow> Some (Inl e)
      | Inr base \<Rightarrow>
          (case get_related_filtersets n env (related_filters (env c)) base dat rel [] of
             None \<Rightarrow> None
           | Some (Inl e) \<Rightarrow> Some (Inl e)
           | Some (Inr rfs) \<Rightarrow>
               (case get_request_filters rel dat base base of
                  Inl e \<Rightarrow> Some (Inl e)
                | Inr fs \<Rightarrow> Some (Inr (Instance c dat rel base fs rfs)))))"
| "get_related_filtersets n env [] fs dat rel acc = Some (Inr acc)"
| "get_related_filtersets n env (related_name # names) fs dat rel acc =
     (case map_of fs related_name of
        None \<Rightarrow> get_related_filtersets n env names fs dat rel acc
      | Some f \<Rightarrow>
          (case init_filterset n env (filterset f) dat (Some (related rel related_name)) of
             None \<Rightarrow> None
           | Some (Inl e) \<Rightarrow> Some (Inl e)
           | Some (Inr child) \<Rightarrow>
               get_related_filtersets n env names fs dat rel
                 (AList.update related_name child acc)))"

section \<open>Query compilation across relationships\<close>

text \<open>
  Querysets as terms: the base collection of a model, \<^verbatim>\<open>qs.filter(**{lookup: Subquery(sub)})\<close>
  and \<^verbatim>\<open>qs.values(field)\<close>.
\<close>

datatype query =
    Collection string
  | FilterSubquery query string query
  | Values query string

text \<open>
  \<^verbatim>\<open>FilterSet.filter_related_filtersets\<close>: the loop over
  \<^verbatim>\<open>self.related_filtersets.items()\<close>. The \<^verbatim>\<open>qs\<close> property of a nested instance
  belongs to the base class and is a parameter.
\<close>

fun related_filtersets_loop ::
    "(fs_instance \<Rightarrow> query) \<Rightarrow> string option \<Rightarrow> request_data \<Rightarrow> filters \<Rightarrow> (string \<times> fs_instance) list \<Rightarrow>
     query \<Rightarrow> py_error + query" where
  "related_filtersets_loop qs rel dat fs [] queryset = Inr queryset"
| "related_filtersets_loop qs rel dat fs ((related_name, related_filterset) # rest) queryset =
     (let pre = related rel related_name @ LOOKUP_SEP
      in if \<not> (\<exists>v \<in> set (map fst dat). startswith v pre)
         then related_filtersets_loop qs rel dat fs rest queryset
         else (case map_of fs related_name of
                 None \<Rightarrow> Inl KeyError
               | Some f \<Rightarrow>
                   related_filtersets_loop qs rel dat fs rest
                     (FilterSubquery queryset (field_name f @ LOOKUP_SEP @ ''in'')
                        (Values (qs related_filterset) ''pk''))))"



section \<open>Form errors\<close>

text \<open>
  The \<^verbatim>\<open>clean\<close> method of the form class built by \<^verbatim>\<open>get_form_class\<close>: the form's
  errors are its own field errors (\<open>own\<close>, produced by the base form), into which the
  errors of every related filterset's form are written under
  \<^verbatim>\<open>related(related_filterset, key)\<close>.
\<close>

type_synonym errors = "(string \<times> string) list"

fun form_errors :: "(fs_instance \<Rightarrow> errors) \<Rightarrow> fs_instance \<Rightarrow> errors" where
  "form_errors own (Instance c dat rel base fs rfs) =
     fold (\<lambda>related_filterset errs.
             fold (\<lambda>(key, error) errs.
                     AList.update (related (i_relationship related_filterset) key) error errs)
                  (form_errors own related_filterset) errs)
          (map snd rfs)
          (own (Instance c dat rel base fs rfs))"

section \<open>Specification-level descriptions\<close>

text \<open>
  The exclusion expansion in the words of the specification (section 4.4): every active
  filter is kept, followed by a copy with flipped exclusion flag under the negated name
  when the negated, relationship-qualified parameter is in the request.
\<close>

definition with_exclusions :: "string option \<Rightarrow> request_data \<Rightarrow> filters \<Rightarrow> filters" where
  "with_exclusions rel dat fs =
     concat (map (\<lambda>(n, f). if has_key (related rel (n @ ''!'')) dat
                            then [(n, f), (n @ ''!'', f\<lparr>exclude := \<not> exclude f\<rparr>)]
                            else [(n, f)]) fs)"

text \<open>The name ends with the negation marker.\<close>

definition ends_with_marker :: "string \<Rightarrow> bool" where
  "ends_with_marker k = (k \<noteq> [] \<and> last k = CHR ''!'')"


text \<open>
  A well-formed filter mapping: the names are distinct, as the keys of a dictionary are,
  and none ends with the negation marker.
\<close>

fun wf_names :: "filters \<Rightarrow> bool" where
  "wf_names [] = True"
| "wf_names ((n, f) # fs) = (\<not> ends_with_marker n \<and> \<not> has_key n fs \<and> wf_names fs)"


text \<open>
  A self-referential schema: the class \<open>Tree\<close> has one relational filter \<open>parent\<close>
  whose filterset is \<open>Tree\<close> itself.
\<close>

definition tree_cls :: fclass where
  "tree_cls = \<lparr>declared_filters = [(''parent'', rel_to ''parent'' ''Tree'')],
               base_filters = [(''parent'', rel_to ''parent'' ''Tree'')],
               auto_filters = [''parent''],
               related_filters = [''parent'']\<rparr>"

definition tree_env :: "string \<Rightarrow> fclass" where
  "tree_env c = tree_cls"

text \<open>
  A schema \<open>Post\<close> with a plain filter and a relational filter \<open>author\<close> into the schema
  \<open>User\<close>, and the instances that the request \<open>author__email=a@example.com\<close> builds.
\<close>

definition post_cls :: fclass where
  "post_cls = \<lparr>declared_filters = [(''author'', rel_to ''author'' ''User'')],
               base_filters = [(''title'', plain ''title''), (''author'', rel_to ''author'' ''User'')],
               auto_filters = [''author''],
               related_filters = [''author'']\<rparr>"

definition user_cls :: fclass where
  "user_cls = \<lparr>declared_filters = [],
               base_filters = [(''email'', plain ''email''), (''name'', plain ''name'')],
               auto_filters = [],
               related_filters = []\<rparr>"

definition blog_env :: "string \<Rightarrow> fclass" where
  "blog_env c = (if c = ''Post'' then post_cls else user_cls)"





text \<open>
  A chain of schemas \<open>Root\<close>, \<open>A\<close>, \<open>B\<close>: \<open>Root\<close> has the relational filter \<open>a\<close> into
  \<open>A\<close>, \<open>A\<close> has \<open>b\<close> into \<open>B\<close>, and \<open>B\<close> has the plain filter \<open>field\<close>. The request
  \<open>a__b__field=x\<close> builds the three nested instances; the form of the innermost one has a
  validation error on \<open>field\<close>.
\<close>

definition root_cls :: fclass where
  "root_cls = \<lparr>declared_filters = [(''a'', rel_to ''a'' ''A'')],
               base_filters = [(''a'', rel_to ''a'' ''A'')],
               auto_filters = [''a''],
               related_filters = [''a'']\<rparr>"

definition a_cls :: fclass where
  "a_cls = \<lparr>declared_filters = [(''b'', rel_to ''b'' ''B'')],
            base_filters = [(''b'', rel_to ''b'' ''B'')],
            auto_filters = [''b''],
            related_filters = [''b'']\<rparr>"

definition b_cls :: fclass where
  "b_cls = \<lparr>declared_filters = [(''field'', plain ''field'')],
            base_filters = [(''field'', plain ''field'')],
            auto_filters = [],
            related_filters = []\<rparr>"

definition chain_env :: "string \<Rightarrow> fclass" where
  "chain_env c = (if c = ''Root'' then root_cls else if c = ''A'' then a_cls else b_cls)"

definition chain_data :: request_data where
  "chain_data = [(''a__b__field'', ''x'')]"

definition b_inst :: fs_instance where
  "b_inst = Instance ''B'' chain_data (Some ''a__b'')
              [(''field'', plain ''field'')] [(''field'', plain ''field'')] []"

definition a_inst :: fs_instance where
  "a_inst = Instance ''A'' chain_data (Some ''a'')
              [(''b'', rel_to ''b'' ''B'')] [(''b'', rel_to ''b'' ''B'')] [(''b'', b_inst)]"

definition root_inst :: fs_instance where
  "root_inst = Instance ''Root'' chain_data None
              [(''a'', rel_to ''a'' ''A'')] [(''a'', rel_to ''a'' ''A'')] [(''a'', a_inst)]"

definition chain_own :: "fs_instance \<Rightarrow> errors" where
  "chain_own i = (if i_cls i = ''B'' then [(''field'', ''Enter a number.'')] else [])"

section \<open>Schema expansion\<close>

text \<open>\<^verbatim>\<open>s.replace(old, new, 1)\<close>: the first occurrence of \<open>old\<close> in \<open>s\<close> is replaced.\<close>

fun replace_first :: "string \<Rightarrow> string \<Rightarrow> string \<Rightarrow> string" where
  "replace_first [] old new = (if old = [] then new else [])"
| "replace_first (c # cs) old new =
     (if startswith (c # cs) old then new @ drop (length old) (c # cs)
      else c # replace_first cs old new)"

text \<open>\<^verbatim>\<open>f.lookups or []\<close>.\<close>

definition lookups_or_empty :: "lookups \<Rightarrow> lookups" where
  "lookups_or_empty l = (case l of NoLookups \<Rightarrow> Lookups [] | _ \<Rightarrow> l)"

text \<open>
  \<^verbatim>\<open>new_class.get_filters()\<close> belongs to the base class. It reads \<^verbatim>\<open>_meta.fields\<close>,
  which the loop sets to one field name with its lookups, and the current
  \<^verbatim>\<open>declared_filters\<close>, and it raises for a field that cannot be resolved; it is a
  parameter of the expansion.
\<close>

type_synonym get_filters = "string \<Rightarrow> lookups \<Rightarrow> filters \<Rightarrow> py_error + filters"

text \<open>
  The loop of \<^verbatim>\<open>FilterSetMetaclass.expand_auto_filters\<close> over \<^verbatim>\<open>auto_filters\<close>. The
  state is the working copy of \<^verbatim>\<open>declared_filters\<close> and the class's
  \<^verbatim>\<open>base_filters\<close>, which is written in place. \<^verbatim>\<open>declared_filters[name]\<close> raises
  KeyError for a missing name, and an exception of \<^verbatim>\<open>get_filters\<close> ends the loop.
\<close>

fun expand_loop ::
    "get_filters \<Rightarrow> string list \<Rightarrow> filters \<Rightarrow> filters \<Rightarrow> py_error + (filters \<times> filters)" where
  "expand_loop gf [] declared base = Inr (declared, base)"
| "expand_loop gf (name # names) declared base =
     (case map_of declared name of
        None \<Rightarrow> Inl KeyError
      | Some f \<Rightarrow>
          (let declared = (if \<not> is_related f then AList.delete name declared else declared)
           in case gf (field_name f) (lookups_or_empty (lookups f)) declared of
                Inl e \<Rightarrow> Inl e
              | Inr generated \<Rightarrow>
                  expand_loop gf names declared
                    (fold (\<lambda>(gen_name, gen_f) base.
                             AList.update (replace_first gen_name (field_name f) name) gen_f base)
                          generated base)))"

text \<open>
  \<^verbatim>\<open>expand_auto_filters\<close>: the loop runs on a copy of the declarations, and the
  original \<^verbatim>\<open>declared_filters\<close> (and \<^verbatim>\<open>_meta\<close>) are restored at the end.
\<close>

definition expand_auto_filters :: "get_filters \<Rightarrow> fclass \<Rightarrow> py_error + fclass" where
  "expand_auto_filters gf new_class =
     (case expand_loop gf (auto_filters new_class) (declared_filters new_class)
             (base_filters new_class) of
        Inl e \<Rightarrow> Inl e
      | Inr (declared, base) \<Rightarrow> Inr (new_class\<lparr>base_filters := base\<rparr>))"

text \<open>
  \<^verbatim>\<open>FilterSet.get_fields\<close> for the single entry of \<^verbatim>\<open>_meta.fields\<close>: the lookups
  \<^verbatim>\<open>'__all__'\<close> are replaced by \<^verbatim>\<open>utils.lookups_for_field\<close> of the field, a
  parameter.
\<close>

definition get_fields :: "(string \<Rightarrow> string list) \<Rightarrow> string \<Rightarrow> lookups \<Rightarrow> string list" where
  "get_fields lookups_for_field fld l =
     (case l of NoLookups \<Rightarrow> [] | AllLookups \<Rightarrow> lookups_for_field fld | Lookups xs \<Rightarrow> xs)"

text \<open>\<^verbatim>\<open>str.endswith\<close>.\<close>

definition endswith :: "string \<Rightarrow> string \<Rightarrow> bool" where
  "endswith s suf = (length suf \<le> length s \<and> drop (length s - length suf) s = suf)"

text \<open>
  Modelled from the spec: \<^verbatim>\<open>get_filters\<close> of the base FilterSet class (package
  django\_filters), which \<^verbatim>\<open>expand_auto_filters\<close> calls and which is not under src/
  (spec 4.1 and 7). For the field \<open>ff\<close> and the lookups \<open>L\<close> that \<^verbatim>\<open>get_fields\<close> returns it
  generates, for each operator in \<open>L\<close>, or for all operators supported for \<open>ff\<close>'s type
  if \<open>L\<close> is empty, a filter with field path \<open>ff\<close> and that operator, named by the
  field-generation naming convention (field name, separator and operator, without a
  trailing \<open>__exact\<close>). A declared filter that has the generated name is preserved: the
  generated filters fill gaps only, and all declared filters are in the result. A field
  path that cannot be resolved, and that no declared filter is named after, is a
  schema-definition error. \<open>supported\<close> gives the operators supported for a field, or
  \<open>None\<close> for a field that cannot be resolved.
\<close>

definition get_filter_name :: "string \<Rightarrow> string \<Rightarrow> string" where
  "get_filter_name fld lk =
     (let filter_name = fld @ LOOKUP_SEP @ lk; default_expr = LOOKUP_SEP @ ''exact''
      in if endswith filter_name default_expr
         then take (length filter_name - length default_expr) filter_name
         else filter_name)"

definition filter_for_field :: "string \<Rightarrow> string \<Rightarrow> filter" where
  "filter_for_field fld lk = \<lparr>kind = PlainFilter, field_name = fld, lookup_expr = lk,
       lookups = NoLookups, exclude = False, filterset = []\<rparr>"

definition get_filters_model :: "(string \<Rightarrow> string list option) \<Rightarrow> get_filters" where
  "get_filters_model supported fld l declared =
     (case supported fld of
        None \<Rightarrow>
          if has_key fld declared
          then Inr (fold (\<lambda>(k, v) acc. AList.update k v acc) declared
                      (fold (\<lambda>lk acc.
                               case map_of declared (get_filter_name fld lk) of
                                 Some df \<Rightarrow> AList.update (get_filter_name fld lk) df acc
                               | None \<Rightarrow> acc)
                            (get_fields (\<lambda>f. []) fld l) []))
          else Inl TypeError
      | Some all_ops \<Rightarrow>
          (let L = get_fields (\<lambda>f. all_ops) fld l;
               ops = (if L = [] then all_ops else L);
               generated = fold (\<lambda>lk acc.
                             AList.update (get_filter_name fld lk)
                               (case map_of declared (get_filter_name fld lk) of
                                  Some df \<Rightarrow> df
                                | None \<Rightarrow> filter_for_field fld lk) acc) ops []
           in Inr (fold (\<lambda>(k, v) acc. AList.update k v acc) declared generated)))"

text \<open>
  The writes of the expansion to \<^verbatim>\<open>base_filters\<close>, in order: for every AutoFilter in
  turn, the filters that generation returns for it, each under its name with the first
  occurrence of the field name replaced by the AutoFilter's name.
\<close>

fun expansion_writes :: "get_filters \<Rightarrow> string list \<Rightarrow> filters \<Rightarrow> filters" where
  "expansion_writes gf [] declared = []"
| "expansion_writes gf (name # names) declared =
     (case map_of declared name of
        None \<Rightarrow> []
      | Some f \<Rightarrow>
          (let declared = (if \<not> is_related f then AList.delete name declared else declared)
           in case gf (field_name f) (lookups_or_empty (lookups f)) declared of
                Inl e \<Rightarrow> []
              | Inr generated \<Rightarrow>
                  map (\<lambda>(gen_name, gen_f). (replace_first gen_name (field_name f) name, gen_f))
                      generated
                  @ expansion_writes gf names declared))"

text \<open>
  A schema that declares the AutoFilter \<open>n\<close> on the field \<open>f\<close> with the lookup
  \<open>contains\<close> and the RelatedFilter \<open>author\<close> with the lookup \<open>in\<close>; \<open>base_filters\<close>
  holds the declared filters, as the base metaclass leaves it. \<open>auto_cls_expanded\<close> is
  that schema after expansion. Every field of the model supports the operators of
  \<open>all_lookups\<close>.
\<close>

definition auto :: "string \<Rightarrow> string list \<Rightarrow> filter" where
  "auto fld ls = \<lparr>kind = AutoFilter, field_name = fld, lookup_expr = ''exact'',
                   lookups = Lookups ls, exclude = False, filterset = []\<rparr>"

definition rel_lookups :: "string \<Rightarrow> string \<Rightarrow> string list \<Rightarrow> filter" where
  "rel_lookups fld c ls = \<lparr>kind = RelatedFilter, field_name = fld, lookup_expr = ''exact'',
                            lookups = Lookups ls, exclude = False, filterset = c\<rparr>"

definition auto_cls :: fclass where
  "auto_cls = \<lparr>declared_filters = [(''n'', auto ''f'' [''contains'']),
                                    (''author'', rel_lookups ''author'' ''User'' [''in''])],
               base_filters = [(''n'', auto ''f'' [''contains'']),
                               (''author'', rel_lookups ''author'' ''User'' [''in''])],
               auto_filters = [''n'', ''author''],
               related_filters = [''author'']\<rparr>"

definition all_lookups :: "string \<Rightarrow> string list option" where
  "all_lookups fld = Some [''exact'', ''in'', ''contains'']"

definition auto_cls_expanded :: fclass where
  "auto_cls_expanded = auto_cls\<lparr>base_filters :=
      [(''n'', auto ''f'' [''contains'']),
       (''author'', rel_lookups ''author'' ''User'' [''in'']),
       (''n__contains'', filter_for_field ''f'' ''contains''),
       (''author__in'', filter_for_field ''author'' ''in'')]\<rparr>"


text \<open>
  A schema that declares the RelatedFilter \<open>nb\<close>, the plain filter \<open>fb\<close> and the
  AutoFilter \<open>n\<close> on the field \<open>f\<close>.
\<close>

definition rename_cls :: fclass where
  "rename_cls = \<lparr>declared_filters = [(''nb'', rel_lookups ''nb'' ''User'' [''in'']),
                                      (''fb'', plain ''fb''),
                                      (''n'', auto ''f'' [''exact''])],
                 base_filters = [(''nb'', rel_lookups ''nb'' ''User'' [''in'']),
                                 (''fb'', plain ''fb''),
                                 (''n'', auto ''f'' [''exact''])],
                 auto_filters = [''nb'', ''n''],
                 related_filters = [''nb'']\<rparr>"

section \<open>Closed forms of query compilation and further example requests\<close>





















definition direct_data :: request_data where
  "direct_data = [(''title'', ''x''), (''author'', ''5'')]"


definition direct_inst :: fs_instance where
  "direct_inst = Instance ''Post'' direct_data None
      [(''title'', plain ''title''), (''author'', rel_to ''author'' ''User'')]
      [(''title'', plain ''title''), (''author'', rel_to ''author'' ''User'')]
      [(''author'', Instance ''User'' direct_data (Some ''author'') [] [] [])]"




section \<open>Properties of parameter resolution and subset selection\<close>

lemma startswith_empty: "startswith [] (n @ LOOKUP_SEP) = False"
  by (simp add: startswith_def LOOKUP_SEP_def)

lemma find_sep_empty: "find (\<lambda>name. startswith [] (name @ LOOKUP_SEP)) xs = None"
  by (induction xs) (simp_all add: startswith_empty)

lemma negated_form_iff:
  "(\<exists>q \<in> set (map fst d). p = q @ ''!'') \<longleftrightarrow> (p \<noteq> [] \<and> last p = CHR ''!'' \<and> has_key (butlast p) d)"
proof
  assume "\<exists>q \<in> set (map fst d). p = q @ ''!''"
  then obtain q where "q \<in> set (map fst d)" "p = q @ ''!''" by blast
  then show "p \<noteq> [] \<and> last p = CHR ''!'' \<and> has_key (butlast p) d"
    by (simp add: has_key_def)
next
  assume a: "p \<noteq> [] \<and> last p = CHR ''!'' \<and> has_key (butlast p) d"
  then have "p = butlast p @ ''!''"
    by (metis append_butlast_last_id)
  with a show "\<exists>q \<in> set (map fst d). p = q @ ''!''"
    unfolding has_key_def by blast
qed

lemma resolve_spec_empty:
  "strip_rel p r = [] \<Longrightarrow> \<not> has_key [] (base_filters cls) \<Longrightarrow> resolve_spec cls p r = None"
  by (simp add: resolve_spec_def Let_def find_sep_empty)

lemma get_param_filter_name_char:
  "get_param_filter_name cls p r =
     (if strip_rel p r = [] \<and> \<not> has_key [] (base_filters cls) then Inl IndexError
      else Inr (resolve_spec cls p r))"
  unfolding get_param_filter_name_def resolve_spec_def Let_def negated_form_iff
  by (simp add: find_sep_empty)

lemma find_rev_sorted:
  fixes a :: "'a::linorder"
  assumes "sorted ys" "a \<in> set ys" "P a" "\<forall>x \<in> set ys. P x \<longrightarrow> x \<le> a"
  shows "find P (rev ys) = Some a"
  using assms
proof (induction ys rule: rev_induct)
  case Nil
  then show ?case by simp
next
  case (snoc z zs)
  from snoc.prems(1) have le: "\<forall>x \<in> set zs. x \<le> z" and szs: "sorted zs"
    by (auto simp: sorted_append)
  show ?case
  proof (cases "P z")
    case True
    with snoc.prems have "z \<le> a" by simp
    moreover from snoc.prems(2) le have "a \<le> z" by auto
    ultimately show ?thesis using True by simp
  next
    case False
    with snoc.prems have "a \<in> set zs" by auto
    with snoc.IH szs snoc.prems have "find P (rev zs) = Some a" by simp
    with False show ?thesis by simp
  qed
qed

lemma find_greatest_match:
  fixes a :: "'a::linorder"
  assumes "a \<in> set xs" "P a" "\<forall>x \<in> set xs. P x \<longrightarrow> x \<le> a"
  shows "find P (rev (sort xs)) = Some a"
  using assms by (intro find_rev_sorted) simp_all

text \<open>
  Claim C1 (parameter resolution precedence). The relationship prefix followed by the
  separator is stripped from a parameter that starts with it, when a (non-empty)
  prefix is given; a parameter that does not start with it, or any parameter when no
  prefix is given, is left as it is. With \<open>s\<close> the parameter after stripping: an exact match of \<open>s\<close> against the filter names
  is returned first; otherwise, when \<open>s\<close> is \<open>q\<close> followed by the marker \<open>!\<close> and \<open>q\<close> is a
  filter name, \<open>q\<close> is returned; otherwise the first relational name in reverse sorted
  order that, followed by the separator, prefixes \<open>s\<close> is returned. Whatever the
  specification's procedure selects is what the code returns, and whatever the code
  returns is what that procedure selects. With relational filters \<open>note\<close> and
  \<open>note_author\<close>, the parameter \<open>note_author__title\<close> resolves to \<open>note_author\<close>; with
  \<open>note\<close> and \<open>note__author\<close>, where both names prefix the parameter,
  \<open>note__author__title\<close> resolves to the more specific \<open>note__author\<close>.
\<close>

theorem get_param_filter_name_precedence:
  "(has_key (strip_rel p r) (base_filters cls) \<longrightarrow>
      get_param_filter_name cls p r = Inr (Some (strip_rel p r)))
   \<and> (\<not> has_key (strip_rel p r) (base_filters cls) \<and> strip_rel p r = q @ ''!''
        \<and> has_key q (base_filters cls) \<longrightarrow>
      get_param_filter_name cls p r = Inr (Some q))
   \<and> (\<not> has_key (strip_rel p r) (base_filters cls)
        \<and> \<not> (\<exists>q. strip_rel p r = q @ ''!'' \<and> has_key q (base_filters cls))
        \<and> find (\<lambda>name. startswith (strip_rel p r) (name @ LOOKUP_SEP))
                (rev (sort (related_filters cls))) = Some n \<longrightarrow>
      get_param_filter_name cls p r = Inr (Some n))
   \<and> (resolve_spec cls p r = Some n \<longrightarrow> get_param_filter_name cls p r = Inr (Some n))
   \<and> (get_param_filter_name cls p r = Inr x \<longrightarrow> x = resolve_spec cls p r)
   \<and> (set (related_filters cls) = {''note'', ''note_author''}
        \<and> \<not> has_key ''note_author__title'' (base_filters cls) \<longrightarrow>
      get_param_filter_name cls ''note_author__title'' None = Inr (Some ''note_author''))
   \<and> (set (related_filters cls) = {''note'', ''note__author''}
        \<and> \<not> has_key ''note__author__title'' (base_filters cls) \<longrightarrow>
      get_param_filter_name cls ''note__author__title'' None = Inr (Some ''note__author''))
   \<and> strip_rel p None = p
   \<and> (rel \<noteq> [] \<longrightarrow> strip_rel (rel @ LOOKUP_SEP @ s) (Some rel) = s)
   \<and> (\<not> startswith p (rel @ LOOKUP_SEP) \<longrightarrow> strip_rel p (Some rel) = p)"
proof (intro conjI impI)
  show "strip_rel p None = p"
    by (simp add: strip_rel_def)
  show "strip_rel (rel @ LOOKUP_SEP @ s) (Some rel) = s" if "rel \<noteq> []"
    using that by (simp add: strip_rel_def startswith_def)
  show "strip_rel p (Some rel) = p" if "\<not> startswith p (rel @ LOOKUP_SEP)"
    using that by (simp add: strip_rel_def)
  show "get_param_filter_name cls p r = Inr (Some (strip_rel p r))"
    if "has_key (strip_rel p r) (base_filters cls)"
    using that by (simp add: get_param_filter_name_def Let_def)
  show "get_param_filter_name cls p r = Inr (Some q)"
    if "\<not> has_key (strip_rel p r) (base_filters cls) \<and> strip_rel p r = q @ ''!''
        \<and> has_key q (base_filters cls)"
    using that by (auto simp: get_param_filter_name_def Let_def)
  show "get_param_filter_name cls p r = Inr (Some n)"
    if h: "\<not> has_key (strip_rel p r) (base_filters cls)
        \<and> \<not> (\<exists>q. strip_rel p r = q @ ''!'' \<and> has_key q (base_filters cls))
        \<and> find (\<lambda>name. startswith (strip_rel p r) (name @ LOOKUP_SEP))
                (rev (sort (related_filters cls))) = Some n"
  proof -
    from h have ne: "strip_rel p r \<noteq> []"
      by (auto simp: find_sep_empty)
    from h have "\<not> (last (strip_rel p r) = CHR ''!'' \<and> has_key (butlast (strip_rel p r)) (base_filters cls))"
      using ne by (metis append_butlast_last_id)
    with h ne show ?thesis
      by (auto simp: get_param_filter_name_def Let_def)
  qed
  show "get_param_filter_name cls p r = Inr (Some n)" if "resolve_spec cls p r = Some n"
    using that resolve_spec_empty [of p r cls] by (auto simp: get_param_filter_name_char)
  show "x = resolve_spec cls p r" if "get_param_filter_name cls p r = Inr x"
    using that by (simp add: get_param_filter_name_char split: if_splits)
  show "get_param_filter_name cls ''note_author__title'' None = Inr (Some ''note_author'')"
    if h: "set (related_filters cls) = {''note'', ''note_author''}
        \<and> \<not> has_key ''note_author__title'' (base_filters cls)"
  proof -
    have "find (\<lambda>name. startswith ''note_author__title'' (name @ LOOKUP_SEP))
            (rev (sort (related_filters cls))) = Some ''note_author''"
      using h by (intro find_greatest_match) (auto simp: startswith_def LOOKUP_SEP_def)
    with h show ?thesis
      by (simp add: get_param_filter_name_def Let_def strip_rel_def)
  qed
  show "get_param_filter_name cls ''note__author__title'' None = Inr (Some ''note__author'')"
    if h: "set (related_filters cls) = {''note'', ''note__author''}
        \<and> \<not> has_key ''note__author__title'' (base_filters cls)"
  proof -
    have "find (\<lambda>name. startswith ''note__author__title'' (name @ LOOKUP_SEP))
            (rev (sort (related_filters cls))) = Some ''note__author''"
      using h by (intro find_greatest_match) (auto simp: startswith_def LOOKUP_SEP_def)
    with h show ?thesis
      by (simp add: get_param_filter_name_def Let_def strip_rel_def)
  qed
qed

theorem get_param_filter_name_precedence_witness:
  "get_param_filter_name note_cls ''title'' None = Inr (Some ''title'')
   \<and> get_param_filter_name note_cls ''title!'' None = Inr (Some ''title'')
   \<and> get_param_filter_name note_cls ''note__title'' None = Inr (Some ''note'')
   \<and> get_param_filter_name note_cls ''note_author__title'' None = Inr (Some ''note_author'')
   \<and> strip_rel ''author__title'' (Some ''author'') = ''title''
   \<and> strip_rel ''title'' (Some ''author'') = ''title''"
proof -
  have k: "has_key ''title'' (base_filters note_cls)"
    by (simp add: has_key_def note_cls_def)
  have s1: "strip_rel ''title'' None = ''title''" and s2: "strip_rel ''title!'' None = ''title'' @ ''!''"
    by (simp_all add: strip_rel_def)
  have nk: "\<not> has_key ''note_author__title'' (base_filters note_cls)"
    "\<not> has_key (strip_rel ''title!'' None) (base_filters note_cls)"
    by (simp_all add: has_key_def note_cls_def strip_rel_def)
  have r: "set (related_filters note_cls) = {''note'', ''note_author''}"
    by (simp add: note_cls_def)
  have sp: "resolve_spec note_cls ''note__title'' None = Some ''note''"
    by (simp add: resolve_spec_def strip_rel_def has_key_def note_cls_def startswith_def
        LOOKUP_SEP_def)
  note T = get_param_filter_name_precedence
  from T [of "''title''" None note_cls] k s1
  have 1: "get_param_filter_name note_cls ''title'' None = Inr (Some ''title'')" by simp
  from T [of "''title!''" None note_cls "''title''"] k s2 nk
  have 2: "get_param_filter_name note_cls ''title!'' None = Inr (Some ''title'')" by blast
  from T [of "''note__title''" None note_cls _ "''note''"] sp
  have 3: "get_param_filter_name note_cls ''note__title'' None = Inr (Some ''note'')" by blast
  from T [of _ _ note_cls] r nk
  have 4: "get_param_filter_name note_cls ''note_author__title'' None = Inr (Some ''note_author'')"
    by blast
  have ne: "''author'' \<noteq> []" by simp
  from T [of _ _ _ _ _ _ "''author''" "''title''"] ne
  have 5: "strip_rel ''author__title'' (Some ''author'') = ''title''"
    by (simp add: LOOKUP_SEP_def)
  have ns: "\<not> startswith ''title'' (''author'' @ LOOKUP_SEP)"
    by (simp add: startswith_def LOOKUP_SEP_def)
  from T [of "''title''" _ _ _ _ _ "''author''"] ns
  have 6: "strip_rel ''title'' (Some ''author'') = ''title''"
    by blast
  from 1 2 3 4 5 6 show ?thesis by simp
qed

text \<open>
  Claim C10 (resolution is not total on the empty parameter). When the parameter is
  empty after prefix stripping and the empty string is not a filter name, the negation
  check indexes the last character of the empty string and the call raises IndexError.
  This happens for a raw parameter equal to the relationship prefix plus the separator
  and for the empty parameter name.
\<close>

theorem get_param_filter_name_empty_raises:
  "(strip_rel p r = [] \<and> \<not> has_key [] (base_filters cls) \<longrightarrow>
      get_param_filter_name cls p r = Inl IndexError)
   \<and> (rel \<noteq> [] \<and> \<not> has_key [] (base_filters cls) \<longrightarrow>
      get_param_filter_name cls (rel @ LOOKUP_SEP) (Some rel) = Inl IndexError)
   \<and> (\<not> has_key [] (base_filters cls) \<longrightarrow>
      get_param_filter_name cls [] r = Inl IndexError)"
proof (intro conjI impI)
  show "get_param_filter_name cls p r = Inl IndexError"
    if "strip_rel p r = [] \<and> \<not> has_key [] (base_filters cls)"
    using that by (simp add: get_param_filter_name_def Let_def)
  have "strip_rel (rel @ LOOKUP_SEP) (Some rel) = []" if "rel \<noteq> []"
    using that by (simp add: strip_rel_def startswith_def)
  then show "get_param_filter_name cls (rel @ LOOKUP_SEP) (Some rel) = Inl IndexError"
    if "rel \<noteq> [] \<and> \<not> has_key [] (base_filters cls)"
    using that by (simp add: get_param_filter_name_def Let_def)
  have "strip_rel [] r = []"
    by (simp add: strip_rel_def startswith_def LOOKUP_SEP_def)
  then show "get_param_filter_name cls [] r = Inl IndexError"
    if "\<not> has_key [] (base_filters cls)"
    using that by (simp add: get_param_filter_name_def Let_def)
qed

theorem get_param_filter_name_empty_raises_witness:
  "get_param_filter_name note_cls ''note__'' (Some ''note'') = Inl IndexError
   \<and> get_param_filter_name note_cls [] None = Inl IndexError"
proof -
  have nk: "\<not> has_key [] (base_filters note_cls)"
    by (simp add: has_key_def note_cls_def)
  from get_param_filter_name_empty_raises [of _ None note_cls "''note''"] nk
  show ?thesis by (simp add: LOOKUP_SEP_def)
qed

lemma get_param_filter_name_error:
  "get_param_filter_name cls p r = Inl e \<Longrightarrow> e = IndexError"
  by (auto simp: get_param_filter_name_def Let_def split: if_splits)

lemma resolve_all_Inr:
  "\<forall>p \<in> set ps. \<exists>x. get_param_filter_name cls p r = Inr x \<Longrightarrow>
   resolve_all cls ps r = Inr (map (\<lambda>p. resolve_spec cls p r) ps)"
proof (induction ps)
  case Nil
  then show ?case by simp
next
  case (Cons p ps)
  then obtain x where x: "get_param_filter_name cls p r = Inr x" by auto
  then have "x = resolve_spec cls p r"
    by (simp add: get_param_filter_name_char split: if_splits)
  with x Cons show ?case by simp
qed

lemma resolve_all_Inl:
  "p \<in> set ps \<Longrightarrow> get_param_filter_name cls p r = Inl e \<Longrightarrow>
   resolve_all cls ps r = Inl IndexError"
proof (induction ps)
  case Nil
  then show ?case by simp
next
  case (Cons a ps)
  show ?case
  proof (cases "get_param_filter_name cls a r")
    case (Inl e')
    then show ?thesis using get_param_filter_name_error [OF Inl] by simp
  next
    case (Inr x)
    with Cons have "p \<in> set ps" by auto
    with Cons Inr show ?thesis by simp
  qed
qed

lemma find_Some_mem: "find P xs = Some n \<Longrightarrow> n \<in> set xs"
  by (induction xs) (auto split: if_splits)

lemma resolve_spec_in_schema:
  assumes "resolve_spec cls p r = Some n"
  shows "has_key n (base_filters cls) \<or> n \<in> set (related_filters cls)"
proof (cases "has_key n (base_filters cls)")
  case True
  then show ?thesis by simp
next
  case False
  with assms have "find (\<lambda>name. startswith (strip_rel p r) (name @ LOOKUP_SEP))
                   (rev (sort (related_filters cls))) = Some n"
    unfolding resolve_spec_def Let_def negated_form_iff
    by (auto split: if_splits)
  from find_Some_mem [OF this] show ?thesis by simp
qed

text \<open>
  Subset selection where resolution returns: if every parameter of \<open>P\<close> resolves,
  \<open>get_filter_subset\<close> returns the entries of the class's \<open>base_filters\<close> whose name is
  the resolution of some parameter, non-matches dropped: a subset of the full schema, in
  the schema's declaration order. Its keys are the resolved names that the schema
  holds, which is all of them when every relational filter name is a key of
  \<open>base_filters\<close>, as the metaclass builds it. The function only reads the class: the
  result is a new mapping and the class is no part of it. Where some parameter makes
  resolution raise, the call raises as well.
\<close>

lemma get_filter_subset_selection:
  "((\<forall>p \<in> set P. \<exists>x. get_param_filter_name cls p r = Inr x) \<longrightarrow>
      (\<exists>m. get_filter_subset cls P r = Inr m
         \<and> m = filter (\<lambda>(k, v). \<exists>p \<in> set P. get_param_filter_name cls p r = Inr (Some k))
                       (base_filters cls)
         \<and> set m \<subseteq> set (base_filters cls)
         \<and> subseq m (base_filters cls)
         \<and> fst ` set m = {n. \<exists>p \<in> set P. get_param_filter_name cls p r = Inr (Some n)}
                           \<inter> fst ` set (base_filters cls)
         \<and> (set (related_filters cls) \<subseteq> fst ` set (base_filters cls) \<longrightarrow>
              fst ` set m = {n. \<exists>p \<in> set P. get_param_filter_name cls p r = Inr (Some n)})))
   \<and> ((\<exists>p \<in> set P. \<exists>e. get_param_filter_name cls p r = Inl e) \<longrightarrow>
        get_filter_subset cls P r = Inl IndexError)"
proof (intro conjI impI)
  assume ok: "\<forall>p \<in> set P. \<exists>x. get_param_filter_name cls p r = Inr x"
  define N where "N = {n. \<exists>p \<in> set P. get_param_filter_name cls p r = Inr (Some n)}"
  define m where "m = filter (\<lambda>(k, v). k \<in> N) (base_filters cls)"
  have names: "Some k \<in> set (map (\<lambda>p. resolve_spec cls p r) P) \<longleftrightarrow> k \<in> N" for k
  proof
    assume "Some k \<in> set (map (\<lambda>p. resolve_spec cls p r) P)"
    then obtain p where p: "p \<in> set P" "resolve_spec cls p r = Some k" by auto
    from ok p obtain x where "get_param_filter_name cls p r = Inr x" by blast
    with p show "k \<in> N"
      unfolding N_def by (auto simp: get_param_filter_name_char split: if_splits)
  next
    assume "k \<in> N"
    then obtain p where p: "p \<in> set P" "get_param_filter_name cls p r = Inr (Some k)"
      unfolding N_def by blast
    then have "resolve_spec cls p r = Some k"
      by (simp add: get_param_filter_name_char split: if_splits)
    with p show "Some k \<in> set (map (\<lambda>p. resolve_spec cls p r) P)" by force
  qed
  have res: "get_filter_subset cls P r = Inr m"
    unfolding get_filter_subset_def m_def resolve_all_Inr [OF ok]
    by (simp add: names del: set_map)
  have keys: "fst ` set m = N \<inter> fst ` set (base_filters cls)"
    unfolding m_def by force
  have exact: "fst ` set m = N" if wf: "set (related_filters cls) \<subseteq> fst ` set (base_filters cls)"
  proof -
    have "N \<subseteq> fst ` set (base_filters cls)"
    proof
      fix n assume "n \<in> N"
      then obtain p where "get_param_filter_name cls p r = Inr (Some n)"
        unfolding N_def by blast
      then have "resolve_spec cls p r = Some n"
        by (simp add: get_param_filter_name_char split: if_splits)
      from resolve_spec_in_schema [OF this] wf show "n \<in> fst ` set (base_filters cls)"
        by (auto simp: has_key_def)
    qed
    with keys show ?thesis by blast
  qed
  have "m = filter (\<lambda>(k, v). \<exists>p \<in> set P. get_param_filter_name cls p r = Inr (Some k))
                       (base_filters cls)"
    unfolding m_def N_def by simp
  moreover have "set m \<subseteq> set (base_filters cls)" "subseq m (base_filters cls)"
    unfolding m_def by simp_all
  ultimately show "\<exists>m. get_filter_subset cls P r = Inr m
         \<and> m = filter (\<lambda>(k, v). \<exists>p \<in> set P. get_param_filter_name cls p r = Inr (Some k))
                       (base_filters cls)
         \<and> set m \<subseteq> set (base_filters cls)
         \<and> subseq m (base_filters cls)
         \<and> fst ` set m = {n. \<exists>p \<in> set P. get_param_filter_name cls p r = Inr (Some n)}
                           \<inter> fst ` set (base_filters cls)
         \<and> (set (related_filters cls) \<subseteq> fst ` set (base_filters cls) \<longrightarrow>
              fst ` set m = {n. \<exists>p \<in> set P. get_param_filter_name cls p r = Inr (Some n)})"
    using res keys exact unfolding N_def by blast
next
  assume "\<exists>p \<in> set P. \<exists>e. get_param_filter_name cls p r = Inl e"
  then obtain p e where "p \<in> set P" "get_param_filter_name cls p r = Inl e" by blast
  from resolve_all_Inl [OF this] show "get_filter_subset cls P r = Inl IndexError"
    by (simp add: get_filter_subset_def)
qed

lemma get_filter_subset_selection_example:
  "get_filter_subset note_cls [''note__x'', ''title!'', ''zzz''] None
     = Inr [(''title'', plain ''title''), (''note'', rel_to ''note'' ''Note'')]"
proof -
  let ?P = "[''note__x'', ''title!'', ''zzz'']"
  have g: "get_param_filter_name note_cls ''note__x'' None = Inr (Some ''note'')"
    "get_param_filter_name note_cls ''title!'' None = Inr (Some ''title'')"
    "get_param_filter_name note_cls ''zzz'' None = Inr None"
    by (simp_all add: get_param_filter_name_def strip_rel_def has_key_def note_cls_def
        startswith_def LOOKUP_SEP_def)
  then have ok: "\<forall>p \<in> set ?P. \<exists>x. get_param_filter_name note_cls p None = Inr x"
    by simp
  from get_filter_subset_selection [of ?P note_cls None] ok
  have "get_filter_subset note_cls ?P None
        = Inr (filter (\<lambda>(k, v). \<exists>p \<in> set ?P. get_param_filter_name note_cls p None = Inr (Some k))
                 (base_filters note_cls))"
    by blast
  also have "filter (\<lambda>(k, v). \<exists>p \<in> set ?P. get_param_filter_name note_cls p None = Inr (Some k))
                 (base_filters note_cls)
             = [(''title'', plain ''title''), (''note'', rel_to ''note'' ''Note'')]"
    by (simp add: g) (simp add: note_cls_def)
  finally show ?thesis .
qed

text \<open>
  Claim C2 (filter subset selection). The claim is for every parameter set. In a nested
  instance under the relationship \<open>note\<close>, the request parameters \<open>note__title\<close> and
  \<open>note__\<close> make the call raise IndexError: the second parameter is empty once the prefix
  is stripped, and no mapping is returned. Without that parameter the call returns the
  mapping that holds exactly the filter \<open>title\<close>.
\<close>

theorem get_filter_subset_empty_param_raises:
  "get_filter_subset note_cls [''note__title'', ''note__''] (Some ''note'') = Inl IndexError
   \<and> get_filter_subset note_cls [''note__title''] (Some ''note'')
       = Inr [(''title'', plain ''title'')]"
  by (simp add: get_filter_subset_def get_param_filter_name_def strip_rel_def
      has_key_def note_cls_def startswith_def LOOKUP_SEP_def)

lemma unknown_param_ignored:
  assumes "strip_rel p r \<noteq> []" "resolve_spec cls p r = None"
  shows "get_param_filter_name cls p r = Inr None"
  using assms by (simp add: get_param_filter_name_char)

text \<open>
  Claim C9 (unknown parameters are silently ignored). The empty parameter name matches
  no filter name, no negation-stripped name and no relational name followed by the
  separator, so the claim has resolution return none for it. The code raises IndexError
  there, and the subset selection over a request holding that parameter raises with it.
\<close>

theorem unknown_empty_param_raises:
  "resolve_spec note_cls [] None = None
   \<and> get_param_filter_name note_cls [] None = Inl IndexError
   \<and> get_filter_subset note_cls [''title'', []] None = Inl IndexError"
  by (simp add: resolve_spec_def get_filter_subset_def get_param_filter_name_def strip_rel_def
      has_key_def note_cls_def startswith_def LOOKUP_SEP_def)

section \<open>Properties of the exclusion expansion and of nested instantiation\<close>

lemma update_fresh: "\<not> has_key k acc \<Longrightarrow> AList.update k v acc = acc @ [(k, v)]"
  unfolding has_key_def by (induction acc) auto

lemma ends_with_marker_append: "ends_with_marker (k @ ''!'')"
  by (simp add: ends_with_marker_def)

lemma has_key_append: "has_key k (xs @ ys) \<longleftrightarrow> has_key k xs \<or> has_key k ys"
  by (auto simp: has_key_def)

lemma has_key_Cons: "has_key k ((n, f) # xs) \<longleftrightarrow> k = n \<or> has_key k xs"
  by (auto simp: has_key_def)

lemma has_key_Nil: "\<not> has_key k []"
  by (simp add: has_key_def)

lemma with_exclusions_Nil: "with_exclusions rel dat [] = []"
  by (simp add: with_exclusions_def)

lemma with_exclusions_Cons:
  "with_exclusions rel dat ((n, f) # fs) =
      (if has_key (related rel (n @ ''!'')) dat
       then [(n, f), (n @ ''!'', f\<lparr>exclude := \<not> exclude f\<rparr>)] else [(n, f)])
      @ with_exclusions rel dat fs"
  by (simp add: with_exclusions_def)

lemma wf_names_no_marker: "wf_names fs \<Longrightarrow> has_key k fs \<Longrightarrow> \<not> ends_with_marker k"
  by (induction fs rule: wf_names.induct) (auto simp: has_key_Cons has_key_Nil)

lemma wf_names_no_negated: "wf_names fs \<Longrightarrow> \<not> has_key (k @ ''!'') fs"
  using wf_names_no_marker ends_with_marker_append by blast

lemma request_filters_loop_closed:
  assumes "wf_names fs"
    and "\<forall>(k, f) \<in> set fs. map_of base k = Some f"
    and "\<forall>k. has_key k fs \<longrightarrow> \<not> has_key k acc \<and> \<not> has_key (k @ ''!'') acc"
  shows "request_filters_loop rel dat base fs acc = Inr (acc @ with_exclusions rel dat fs)"
  using assms
proof (induction fs arbitrary: acc rule: wf_names.induct)
  case 1
  then show ?case by (simp add: with_exclusions_Nil)
next
  case (2 n f fs)
  from "2.prems"(1) have nm: "\<not> ends_with_marker n" "\<not> has_key n fs" and wf: "wf_names fs"
    by simp_all
  from "2.prems"(2) have base: "map_of base n = Some f"
    and rest: "\<forall>(k, f) \<in> set fs. map_of base k = Some f"
    by simp_all
  from "2.prems"(3) have fresh: "\<not> has_key n acc" "\<not> has_key (n @ ''!'') acc"
    by (simp_all add: has_key_Cons)
  from "2.prems"(3) have acc: "has_key k fs \<Longrightarrow> \<not> has_key k acc \<and> \<not> has_key (k @ ''!'') acc" for k
    by (simp add: has_key_Cons)
  have u1: "AList.update n f acc = acc @ [(n, f)]"
    using fresh(1) by (rule update_fresh)
  have "\<not> has_key (n @ ''!'') (acc @ [(n, f)])"
    using fresh(2) by (simp add: has_key_append has_key_Cons has_key_Nil)
  then have u2: "AList.update (n @ ''!'') v (acc @ [(n, f)]) = acc @ [(n, f), (n @ ''!'', v)]" for v
    by (simp add: update_fresh)
  have k1: "has_key k fs \<Longrightarrow> k \<noteq> n \<and> k @ ''!'' \<noteq> n \<and> k \<noteq> n @ ''!''" for k
    using nm wf_names_no_negated [OF wf, of n] ends_with_marker_append [of k] by auto
  show ?case
  proof (cases "has_key (related rel (n @ ''!'')) dat")
    case True
    let ?acc = "acc @ [(n, f), (n @ ''!'', f\<lparr>exclude := \<not> exclude f\<rparr>)]"
    have "\<forall>k. has_key k fs \<longrightarrow> \<not> has_key k ?acc \<and> \<not> has_key (k @ ''!'') ?acc"
      using acc k1 by (simp add: has_key_append has_key_Cons has_key_Nil)
    from "2.IH" [OF wf rest this]
    have "request_filters_loop rel dat base fs ?acc = Inr (?acc @ with_exclusions rel dat fs)" .
    with True base u1 u2 show ?thesis
      by (simp add: Let_def with_exclusions_Cons)
  next
    case False
    let ?acc = "acc @ [(n, f)]"
    have "\<forall>k. has_key k fs \<longrightarrow> \<not> has_key k ?acc \<and> \<not> has_key (k @ ''!'') ?acc"
      using acc k1 by (simp add: has_key_append has_key_Cons has_key_Nil)
    from "2.IH" [OF wf rest this]
    have "request_filters_loop rel dat base fs ?acc = Inr (?acc @ with_exclusions rel dat fs)" .
    with False u1 show ?thesis
      by (simp add: Let_def with_exclusions_Cons)
  qed
qed

lemma get_request_filters_closed:
  assumes "wf_names fs" and "\<forall>(k, f) \<in> set fs. map_of base k = Some f"
  shows "get_request_filters rel dat base fs = Inr (with_exclusions rel dat fs)"
  using request_filters_loop_closed [OF assms, of "[]" rel dat]
  by (simp add: get_request_filters_def has_key_Nil)

lemma with_exclusions_has_key:
  "has_key k (with_exclusions rel dat fs) \<Longrightarrow> has_key k fs \<or> (\<exists>q. k = q @ ''!'' \<and> has_key q fs)"
proof (induction fs)
  case Nil
  then show ?case by (simp add: with_exclusions_Nil)
next
  case (Cons a fs)
  obtain n f where a: "a = (n, f)" by (cases a)
  from Cons show ?case unfolding a with_exclusions_Cons
    by (auto simp: has_key_append has_key_Cons has_key_Nil split: if_splits)
qed

lemma with_exclusions_distinct:
  "wf_names fs \<Longrightarrow> distinct (map fst (with_exclusions rel dat fs))"
proof (induction fs rule: wf_names.induct)
  case 1
  then show ?case by (simp add: with_exclusions_Nil)
next
  case (2 n f fs)
  then have nm: "\<not> ends_with_marker n" "\<not> has_key n fs" and wf: "wf_names fs"
    by simp_all
  have 1: "\<not> has_key n (with_exclusions rel dat fs)"
    using with_exclusions_has_key [of n rel dat fs] nm ends_with_marker_append by auto
  have 2: "\<not> has_key (n @ ''!'') (with_exclusions rel dat fs)"
    using with_exclusions_has_key [of "n @ ''!''" rel dat fs] nm wf_names_no_negated [OF wf, of n]
    by auto
  from "2.IH" [OF wf] 1 2 show ?case
    unfolding with_exclusions_Cons has_key_def by simp
qed

lemma with_exclusions_mem:
  assumes "(n, f) \<in> set fs"
  shows "(n, f) \<in> set (with_exclusions rel dat fs)
    \<and> (has_key (related rel (n @ ''!'')) dat \<longrightarrow>
         (n @ ''!'', f\<lparr>exclude := \<not> exclude f\<rparr>) \<in> set (with_exclusions rel dat fs))"
  using assms
proof (induction fs)
  case Nil
  then show ?case by simp
next
  case (Cons a fs)
  obtain m g where a: "a = (m, g)" by (cases a)
  from Cons show ?case unfolding a with_exclusions_Cons by auto
qed

text \<open>
  Claim C3 (exclusion expansion). Let the active filters have distinct names, none of
  which ends with the negation marker, and let \<^verbatim>\<open>self.filters\<close> be the copy of
  \<^verbatim>\<open>self.base_filters\<close> that the constructor makes. For every active filter \<open>f\<close> named
  \<open>n\<close> whose negated name \<open>n!\<close>, qualified by the instance's relationship, is in the
  request data, \<open>get_request_filters\<close> returns a mapping that holds \<open>f\<close> unchanged under
  \<open>n\<close> and, under \<open>n!\<close>, a copy of \<open>f\<close> that differs only in the negated exclusion flag.
  Every positive entry is retained, the two entries coexist under distinct keys, and the
  declaration in \<open>base_filters\<close> is the same after the call.
\<close>

theorem get_request_filters_exclusion:
  assumes "wf_names fs"
    and "\<forall>(k, g) \<in> set fs. map_of base k = Some g"
    and "(n, f) \<in> set fs"
    and "has_key (related rel (n @ ''!'')) dat"
  shows "\<exists>req. get_request_filters rel dat base fs = Inr req
           \<and> req = with_exclusions rel dat fs
           \<and> distinct (map fst req)
           \<and> map_of req n = Some f
           \<and> map_of req (n @ ''!'') = Some (f\<lparr>exclude := \<not> exclude f\<rparr>)
           \<and> (\<forall>(k, g) \<in> set fs. map_of req k = Some g)
           \<and> map_of base n = Some f"
proof -
  let ?req = "with_exclusions rel dat fs"
  have d: "distinct (map fst ?req)"
    using assms(1) by (rule with_exclusions_distinct)
  have pos: "map_of ?req k = Some g" if "(k, g) \<in> set fs" for k g
    using with_exclusions_mem [OF that, of rel dat] d by simp
  have neg: "map_of ?req (n @ ''!'') = Some (f\<lparr>exclude := \<not> exclude f\<rparr>)"
    using with_exclusions_mem [OF assms(3), of rel dat] assms(4) d by simp
  from assms(2,3) have "map_of base n = Some f" by auto
  with get_request_filters_closed [OF assms(1,2), of rel dat] d pos neg assms(3)
  show ?thesis by auto
qed

theorem get_request_filters_exclusion_witness:
  "get_request_filters None [(''title'', ''x''), (''title!'', ''y'')]
       [(''title'', plain ''title'')] [(''title'', plain ''title'')]
     = Inr [(''title'', plain ''title''), (''title!'', (plain ''title'')\<lparr>exclude := True\<rparr>)]"
proof -
  let ?fs = "[(''title'', plain ''title'')]"
  let ?dat = "[(''title'', ''x''), (''title!'', ''y'')]"
  have 1: "wf_names ?fs" by (simp add: ends_with_marker_def has_key_def)
  have 2: "\<forall>(k, g) \<in> set ?fs. map_of ?fs k = Some g" by simp
  have 3: "(''title'', plain ''title'') \<in> set ?fs" by simp
  have 4: "has_key (related None (''title'' @ ''!'')) ?dat"
    by (simp add: has_key_def related_def)
  from get_request_filters_exclusion [OF 1 2 3 4]
  have "get_request_filters None ?dat ?fs ?fs = Inr (with_exclusions None ?dat ?fs)"
    by blast
  moreover have "exclude (plain ''title'') = False" by (simp add: plain_def)
  ultimately show ?thesis
    using 4 by (simp add: with_exclusions_def)
qed

lemma startswith_sep_underscore:
  assumes "startswith s (r @ LOOKUP_SEP)"
  shows "CHR ''_'' \<in> set s"
proof -
  from assms have "take (length (r @ LOOKUP_SEP)) s = r @ LOOKUP_SEP"
    by (simp add: startswith_def)
  then have "set (r @ LOOKUP_SEP) \<subseteq> set s"
    by (metis set_take_subset)
  then show ?thesis by (simp add: LOOKUP_SEP_def)
qed

lemma strip_rel_no_underscore: "CHR ''_'' \<notin> set s \<Longrightarrow> strip_rel s rel = s"
  using startswith_sep_underscore [of s]
  by (auto simp: strip_rel_def Let_def split: option.splits)

lemma tree_subset:
  "get_filter_subset tree_cls [''parent''] rel = Inr [(''parent'', rel_to ''parent'' ''Tree'')]"
proof -
  have "strip_rel ''parent'' rel = ''parent''"
    by (rule strip_rel_no_underscore) simp
  then have "get_param_filter_name tree_cls ''parent'' rel = Inr (Some ''parent'')"
    by (simp add: get_param_filter_name_def has_key_def tree_cls_def)
  then show ?thesis
    by (simp add: get_filter_subset_def tree_cls_def)
qed

text \<open>
  Claim C8 (termination of nested instantiation). For the self-referential schema and the
  request \<open>parent=1\<close> the construction does not return, whatever the depth bound and
  whatever the relationship it starts from: the parameter \<open>parent\<close> does not begin with
  the relationship prefix of a nested instance, so it is matched unstripped against the
  nested schema, where it again selects the relational filter \<open>parent\<close>.
\<close>

theorem init_filterset_self_reference_diverges:
  "init_filterset fuel tree_env ''Tree'' [(''parent'', ''1'')] rel = None"
proof (induction fuel arbitrary: rel)
  case 0
  then show ?case by simp
next
  case (Suc n)
  have cls: "tree_env ''Tree'' = tree_cls"
    by (simp add: tree_env_def)
  have rf: "related_filters tree_cls = [''parent'']"
    by (simp add: tree_cls_def)
  have fs: "filterset (rel_to ''parent'' ''Tree'') = ''Tree''"
    by (simp add: rel_to_def)
  have "get_related_filtersets n tree_env [''parent'']
          [(''parent'', rel_to ''parent'' ''Tree'')] [(''parent'', ''1'')] rel [] = None"
    using Suc [of "Some (related rel ''parent'')"] by (simp add: fs)
  then show ?case
    by (simp add: cls rf tree_subset del: get_related_filtersets.simps)
qed

section \<open>Properties of query compilation and of form errors\<close>

lemma related_filtersets_loop_skip:
  assumes "\<not> (\<exists>v \<in> set (map fst dat). startswith v (related rel nm @ LOOKUP_SEP))"
  shows "related_filtersets_loop qs rel dat fs (xs @ (nm, child) # ys) q
         = related_filtersets_loop qs rel dat fs (xs @ ys) q"
proof (induction xs arbitrary: q)
  case Nil
  from assms show ?case by (simp add: Let_def)
next
  case (Cons x xs)
  obtain m c where x: "x = (m, c)" by (cases x)
  from Cons show ?case
    unfolding x by (simp add: Let_def split: option.splits)
qed

lemma related_filtersets_loop_all_inactive:
  assumes "\<forall>(nm, child) \<in> set rfs.
             \<not> (\<exists>v \<in> set (map fst dat). startswith v (related rel nm @ LOOKUP_SEP))"
  shows "related_filtersets_loop qs rel dat fs rfs q = Inr q"
  using assms
proof (induction rfs)
  case Nil
  then show ?case by simp
next
  case (Cons x xs)
  obtain m c where x: "x = (m, c)" by (cases x)
  from Cons show ?case
    unfolding x by (simp add: Let_def)
qed





lemmas eval_defs = get_filter_subset_def
      get_param_filter_name_def strip_rel_def has_key_def startswith_def LOOKUP_SEP_def
      related_def get_request_filters_def rel_to_def plain_def


text \<open>
  Claim C7 (validation errors are re-keyed relative to the parent instance). For the
  doubly nested instance under \<open>a__b\<close> with an error on \<open>field\<close>: the relationship of the
  innermost instance is the full path \<open>a__b\<close>, so the intermediate instance \<open>a\<close> receives
  the error under \<open>a__b__field\<close>, where the claim has \<open>b__field\<close>, and the root, which
  prefixes what it finds in the intermediate form, receives it under \<open>a__a__b__field\<close>,
  where the claim has \<open>a__b__field\<close>.
\<close>

theorem form_errors_double_prefix:
  "init_filterset (Suc (Suc (Suc 0))) chain_env ''Root'' chain_data None = Some (Inr root_inst)
   \<and> i_related_filtersets root_inst = [(''a'', a_inst)]
   \<and> i_related_filtersets a_inst = [(''b'', b_inst)]
   \<and> i_relationship a_inst = Some ''a''
   \<and> i_relationship b_inst = Some ''a__b''
   \<and> form_errors chain_own b_inst = [(''field'', ''Enter a number.'')]
   \<and> form_errors chain_own a_inst = [(''a__b__field'', ''Enter a number.'')]
   \<and> form_errors chain_own root_inst = [(''a__a__b__field'', ''Enter a number.'')]"
  by (simp add: chain_env_def root_cls_def a_cls_def b_cls_def chain_data_def
      root_inst_def a_inst_def b_inst_def chain_own_def eval_defs)

section \<open>Properties of schema expansion\<close>








declare expand_loop.simps(2) [simp del]
declare expansion_writes.simps(2) [simp del]






lemmas expand_eval = expand_auto_filters_def expand_loop.simps expansion_writes.simps
  auto_cls_def auto_cls_expanded_def auto_def rel_lookups_def plain_def
  is_related_def is_auto_def get_filters_model_def get_fields_def lookups_or_empty_def
  get_filter_name_def filter_for_field_def startswith_def endswith_def LOOKUP_SEP_def
  all_lookups_def has_key_def Let_def







text \<open>
  The renaming applies to every filter that generation returns, the declared ones
  included: expanding the AutoFilter \<open>n\<close> on the field \<open>f\<close> renames the declared filter
  \<open>fb\<close> to \<open>nb\<close> and writes it over the RelatedFilter \<open>nb\<close>.
\<close>

lemma related_filter_overwritten_by_rename:
  "\<exists>cls'. expand_auto_filters (get_filters_model all_lookups) rename_cls = Inr cls'
     \<and> map_of (base_filters rename_cls) ''nb'' = Some (rel_lookups ''nb'' ''User'' [''in''])
     \<and> map_of (base_filters cls') ''nb'' = Some (plain ''fb'')"
  by (simp add: expand_eval rename_cls_def)

section \<open>Properties of nested instances and of query compilation\<close>























lemmas inst_eval = get_filter_subset_def
      get_param_filter_name_def strip_rel_def has_key_def startswith_def LOOKUP_SEP_def
      related_def get_request_filters_def rel_to_def plain_def

lemma direct_init:
  "init_filterset (Suc (Suc 0)) blog_env ''Post'' direct_data None = Some (Inr direct_inst)"
  by (simp add: blog_env_def post_cls_def user_cls_def direct_data_def direct_inst_def inst_eval)





















end
